theory Spec2Isabelle
  imports Complex_Main "HOL-Library.Sublist" "HOL-Library.Log_Nat"
begin

section \<open>Strings\<close>

text \<open>
  The scraper works on JavaScript strings. They are modelled as lists of 8-bit characters,
  read as the code units 0..255 (the Latin-1 range); every literal the code compares against
  is ASCII. \<open>toLowerCase\<close> and \<open>trim\<close> are given for that range.
\<close>

definition code_unit :: "char \<Rightarrow> nat" where
  "code_unit c = of_char c"

definition lower_char :: "char \<Rightarrow> char" where
  "lower_char c =
     (let n = code_unit c
      in if (65 \<le> n \<and> n \<le> 90) \<or> (192 \<le> n \<and> n \<le> 222 \<and> n \<noteq> 215)
         then char_of (n + 32) else c)"

definition toLowerCase :: "string \<Rightarrow> string" where
  "toLowerCase s = map lower_char s"

text \<open>\<open>s.includes(sub)\<close>: \<open>sub\<close> occurs in \<open>s\<close> as a contiguous run.\<close>

fun str_includes :: "string \<Rightarrow> string \<Rightarrow> bool" where
  "str_includes [] sub = (sub = [])"
| "str_includes (c # cs) sub = (prefix sub (c # cs) \<or> str_includes cs sub)"

text \<open>White space and line terminators that \<open>trim\<close> removes, in the range 0..255:
  TAB, LF, VT, FF, CR, SP and NBSP.\<close>

definition is_space :: "char \<Rightarrow> bool" where
  "is_space c = (let n = code_unit c in (9 \<le> n \<and> n \<le> 13) \<or> n = 32 \<or> n = 160)"

definition trim :: "string \<Rightarrow> string" where
  "trim s = rev (dropWhile is_space (rev (dropWhile is_space s)))"

text \<open>Decimal rendering of a natural number, as string concatenation and template literals
  render a non-negative integer.\<close>

definition digit_char :: "nat \<Rightarrow> char" where
  "digit_char d = char_of (48 + d)"

fun show_nat :: "nat \<Rightarrow> string" where
  "show_nat n = (if n < 10 then [digit_char n] else show_nat (n div 10) @ [digit_char (n mod 10)])"

declare show_nat.simps [simp del]

section \<open>Field normalizer\<close>

text \<open>\<open>extractDistrict\<close>, \<open>extractLocation\<close>, \<open>categorizeOperator\<close> and
  \<open>estimatePriceRange\<close> of the Express server and of the Next.js route (the two copies are
  the same). \<open>!address\<close> is true of the empty string only.\<close>

definition extractDistrict :: "string \<Rightarrow> string" where
  "extractDistrict address =
     (if address = [] then ''Belize''
      else let addr = toLowerCase address in
        if str_includes addr ''cayo'' \<or> str_includes addr ''san ignacio''
           \<or> str_includes addr ''santa elena'' \<or> str_includes addr ''benque''
           \<or> str_includes addr ''bullet tree'' then ''Cayo''
        else if str_includes addr ''stann'' \<or> str_includes addr ''placencia''
           \<or> str_includes addr ''dangriga'' \<or> str_includes addr ''hopkins'' then ''Stann Creek''
        else if str_includes addr ''corozal'' then ''Corozal''
        else if str_includes addr ''orange walk'' then ''Orange Walk''
        else if str_includes addr ''toledo'' \<or> str_includes addr ''punta gorda'' then ''Toledo''
        else if str_includes addr ''san pedro'' \<or> str_includes addr ''ambergris''
           \<or> str_includes addr ''caye caulker'' \<or> str_includes addr ''belize city''
           \<or> str_includes addr ''ladyville'' then ''Belize''
        else ''Belize'')"

definition locations :: "string list" where
  "locations = [''San Pedro'', ''Caye Caulker'', ''San Ignacio'', ''Santa Elena'', ''Benque'',
     ''Placencia'', ''Hopkins'', ''Dangriga'', ''Belize City'', ''Ladyville'', ''Corozal'',
     ''Orange Walk'', ''Punta Gorda'']"

definition extractLocation :: "string \<Rightarrow> string" where
  "extractLocation address =
     (if address = [] then ''Belize''
      else case find (\<lambda>loc. str_includes (toLowerCase address) (toLowerCase loc)) locations of
             Some loc \<Rightarrow> loc
           | None \<Rightarrow> ''Belize'')"

definition categorizeOperator :: "string \<Rightarrow> string" where
  "categorizeOperator name =
     (if name = [] then ''General''
      else let n = toLowerCase name in
        if str_includes n ''dive'' \<or> str_includes n ''scuba'' \<or> str_includes n ''sea''
           \<or> str_includes n ''snork'' then ''Diving''
        else if str_includes n ''maya'' \<or> str_includes n ''ruin''
           \<or> str_includes n ''archaeolog'' then ''Mayan Tours''
        else if str_includes n ''adventure'' \<or> str_includes n ''cave'' \<or> str_includes n ''zip''
           \<or> str_includes n ''jungle'' then ''Adventure''
        else if str_includes n ''fish'' then ''Fishing''
        else if str_includes n ''resort'' \<or> str_includes n ''hotel''
           \<or> str_includes n ''lodge'' then ''Resort''
        else if str_includes n ''rent'' \<or> str_includes n ''golf cart'' then ''Rentals''
        else ''General'')"

definition estimatePriceRange :: "string \<Rightarrow> string" where
  "estimatePriceRange name =
     (let n = toLowerCase name in
        if str_includes n ''luxury'' \<or> str_includes n ''resort'' \<or> str_includes n ''heli''
           \<or> str_includes n ''private'' then ''$$$''
        else if str_includes n ''dive'' \<or> str_includes n ''adventure'' then ''$$''
        else ''$'')"

section \<open>Numbers\<close>

text \<open>
  JavaScript numbers are IEEE 754 binary64 values. Finite values are modelled as rationals, and
  every arithmetic operation of the source is the exact rational operation followed by
  \<open>fl\<close>, rounding to the nearest binary64 value with ties to even: a value is
  \<open>m * 2^e\<close> with \<open>m < 2^53\<close> and \<open>e \<ge> -1074\<close> (subnormal numbers
  included). Overflow to infinity is left out: the numbers of this program stay below 1001.
\<close>

definition ilog2 :: "rat \<Rightarrow> int" where
  \<comment> \<open>for \<open>x > 0\<close>, the integer \<open>k\<close> with \<open>2^k \<le> x < 2^(k+1)\<close>\<close>
  "ilog2 x = (if 1 \<le> x then bitlen \<lfloor>x\<rfloor> - 1 else - bitlen (\<lceil>1 / x\<rceil> - 1))"

definition round_half_even :: "rat \<Rightarrow> int" where
  "round_half_even y =
     (let f = \<lfloor>y\<rfloor>; d = y - of_int f
      in if d < 1 / 2 then f else if 1 / 2 < d then f + 1 else if even f then f else f + 1)"

definition fl :: "rat \<Rightarrow> rat" where
  "fl x =
     (if x = 0 then 0
      else let e = max (ilog2 \<bar>x\<bar> - 52) (- 1074);
               m = round_half_even (\<bar>x\<bar> / 2 powi e)
           in sgn x * of_int m * 2 powi e)"

text \<open>\<open>x.toFixed(1)\<close> for \<open>\<bar>x\<bar> < 10^21\<close>: the integer \<open>n\<close> nearest to
  \<open>10 * \<bar>x\<bar>\<close> (the larger one of two), written with one digit after the point.\<close>

definition toFixed1 :: "rat \<Rightarrow> string" where
  "toFixed1 x =
     (let n = nat \<lfloor>\<bar>x\<bar> * 10 + 1 / 2\<rfloor>
      in (if x < 0 then ''-'' else []) @ show_nat (n div 10) @ ''.'' @ show_nat (n mod 10))"

text \<open>Reading a decimal back, as \<open>parseFloat\<close> does on \<open>digits\<close> or
  \<open>digits.digits\<close> with an optional minus sign: the number the decimal denotes
  (\<open>None\<close> for \<open>NaN\<close>). JavaScript returns the binary64 value nearest to that number;
  exponents and a plus sign are not read here.\<close>

definition is_digit :: "char \<Rightarrow> bool" where
  "is_digit c = (48 \<le> code_unit c \<and> code_unit c \<le> 57)"

definition digits_val :: "string \<Rightarrow> nat" where
  "digits_val ds = foldl (\<lambda>a c. 10 * a + (code_unit c - 48)) 0 ds"

definition parse_unsigned :: "string \<Rightarrow> rat option" where
  "parse_unsigned s =
     (let ip = takeWhile is_digit s; rest = dropWhile is_digit s;
          fp = (case rest of c # fs \<Rightarrow> if c = CHR ''.'' then takeWhile is_digit fs else []
                | [] \<Rightarrow> [])
      in if ip = [] \<and> fp = [] then None
         else Some (of_nat (digits_val ip) + of_nat (digits_val fp) / 10 ^ length fp))"

definition parseFloat :: "string \<Rightarrow> rat option" where
  "parseFloat s =
     (case dropWhile is_space s of
        c # cs \<Rightarrow> if c = CHR ''-'' then map_option uminus (parse_unsigned cs)
                  else parse_unsigned (c # cs)
      | [] \<Rightarrow> None)"

section \<open>Random identifiers and ratings\<close>

text \<open>\<open>Math.random()\<close> is an input: the helpers take the value it returned, a number
  \<open>r\<close> with \<open>0 \<le> r < 1\<close>.\<close>

definition is_alnum_lower :: "char \<Rightarrow> bool" where
  \<comment> \<open>the character class \<open>[a-z0-9]\<close>\<close>
  "is_alnum_lower c = (let n = code_unit c in (97 \<le> n \<and> n \<le> 122) \<or> (48 \<le> n \<and> n \<le> 57))"

definition id_prefix :: "string \<Rightarrow> string" where
  \<comment> \<open>\<open>name.toLowerCase().replace(/[^a-z0-9]/g, '').slice(0, 10)\<close>\<close>
  "id_prefix name = take 10 (filter is_alnum_lower (toLowerCase name))"

definition generateId :: "string \<Rightarrow> rat \<Rightarrow> string" where
  "generateId name r = id_prefix name @ show_nat (nat \<lfloor>fl (r * 1000)\<rfloor>)"

definition generateRating :: "rat \<Rightarrow> string" where
  "generateRating r = toFixed1 (fl (fl (42 / 10) + fl (r * fl (8 / 10))))"

section \<open>Data model\<close>

text \<open>\<open>OperatorData\<close>. The nested object \<open>address: { full, district }\<close> is flattened
  into \<open>address_full\<close> and \<open>address_district\<close>; \<open>id\<close> and \<open>name\<close> are
  \<open>op_id\<close> and \<open>op_name\<close>.\<close>

record operator =
  op_id :: string
  op_name :: string
  phone :: string
  address_full :: string
  address_district :: string
  email :: string
  website :: string
  district :: string
  location :: string
  category :: string
  priceRange :: string
  rating :: string

text \<open>
  What the scraper reads from a parsed page (the document that \<open>cheerio.load\<close> returns):
  for every \<open>tr\<close> element, in document order, the text of each of its \<open>td\<close>
  descendants; the \<open>href\<close> of every anchor that has one; the values of the three hidden
  ASP.NET fields (\<open>None\<close> when the element is absent); the \<open>name\<close> attribute and the
  value of every \<open>input\<close> element.
\<close>

record page =
  rows :: "string list list"
  anchors :: "string list"
  viewState :: "string option"
  eventValidation :: "string option"
  viewStateGenerator :: "string option"
  inputs :: "(string option \<times> string option) list"

text \<open>
  The part of the document behind \<open>rows\<close>. A node is a text or an element with a tag and
  children. \<open>$('tr')\<close> selects every \<open>tr\<close> element of the document and
  \<open>$(el).find('td')\<close> every \<open>td\<close> element below \<open>el\<close>, at any depth, both in document
  order; \<open>.text()\<close> joins the texts below a node. The cells of a row, in the sense of the
  table, are the \<open>td\<close> children of its \<open>tr\<close>.
\<close>

datatype node = Text string | Elem string "node list"

fun kids :: "node \<Rightarrow> node list" where
  "kids (Text s) = []"
| "kids (Elem tag ns) = ns"

fun find_all :: "string \<Rightarrow> node list \<Rightarrow> node list" where
  "find_all tag [] = []"
| "find_all tag (Text s # ns) = find_all tag ns"
| "find_all tag (Elem t ks # ns) =
     (if t = tag then [Elem t ks] else []) @ find_all tag ks @ find_all tag ns"

fun node_text :: "node \<Rightarrow> string" where
  "node_text (Text s) = s"
| "node_text (Elem tag ns) = concat (map node_text ns)"

definition is_td :: "node \<Rightarrow> bool" where
  "is_td n = (case n of Text s \<Rightarrow> False | Elem tag ns \<Rightarrow> tag = ''td'')"

definition own_cells :: "node \<Rightarrow> node list" where
  "own_cells tr = filter is_td (kids tr)"

definition td_texts :: "node \<Rightarrow> string list" where
  \<comment> \<open>\<open>$(el).find('td')\<close>, each with its \<open>.text()\<close>\<close>
  "td_texts tr = map node_text (find_all ''td'' (kids tr))"

definition rows_of :: "node list \<Rightarrow> string list list" where
  \<comment> \<open>what the field \<open>rows\<close> of a page holds for a document\<close>
  "rows_of doc = map td_texts (find_all ''tr'' doc)"

section \<open>Page extractor\<close>

text \<open>\<open>$(tds[i]).text().trim()\<close>: where the row has no cell \<open>i\<close>, \<open>tds[i]\<close> is
  \<open>undefined\<close>, the selection made from it is empty, and its text is the empty string.\<close>

definition cell_text :: "string list \<Rightarrow> nat \<Rightarrow> string" where
  "cell_text tds i = (if i < length tds then trim (tds ! i) else [])"

text \<open>
  The body of the callback given to \<open>$('tr').each\<close>. The random source is the sequence
  \<open>rnd\<close> of the values that successive calls of \<open>Math.random()\<close> return, and \<open>k\<close>
  counts the calls made so far: a record takes two, the first for its id and the second for
  its rating (the order of the object literal). The result is the record pushed, if any, and
  the new count.
\<close>

definition extractRow :: "(nat \<Rightarrow> rat) \<Rightarrow> nat \<Rightarrow> string list \<Rightarrow> operator option \<times> nat" where
  "extractRow rnd k tds =
     (if length tds < 4 then (None, k)
      else let name = cell_text tds 0 in
        if name = [] \<or> name = ''Name'' \<or> str_includes name ''Company Name'' then (None, k)
        else let phone' = cell_text tds 1;
                 address = cell_text tds 2;
                 email' = cell_text tds 3;
                 website' = cell_text tds 4
             in (Some \<lparr>op_id = generateId name (rnd k),
                       op_name = name,
                       phone = phone',
                       address_full = address,
                       address_district = extractDistrict address,
                       email = email',
                       website = website',
                       district = extractDistrict address,
                       location = extractLocation address,
                       category = categorizeOperator name,
                       priceRange = estimatePriceRange name,
                       rating = generateRating (rnd (k + 1))\<rparr>,
                 k + 2))"

fun extractRows :: "(nat \<Rightarrow> rat) \<Rightarrow> nat \<Rightarrow> string list list \<Rightarrow> operator list \<times> nat" where
  "extractRows rnd k [] = ([], k)"
| "extractRows rnd k (tds # rest) =
     (case extractRow rnd k tds of
        (None, k') \<Rightarrow> extractRows rnd k' rest
      | (Some r, k') \<Rightarrow> (case extractRows rnd k' rest of (rs, k'') \<Rightarrow> (r # rs, k'')))"

definition extractOperatorsFromTable :: "(nat \<Rightarrow> rat) \<Rightarrow> nat \<Rightarrow> page \<Rightarrow> operator list \<times> nat" where
  "extractOperatorsFromTable rnd k pg = extractRows rnd k (rows pg)"

text \<open>The rows that the specification calls discarded, in its own words: fewer than four
  cells, or a first cell whose (trimmed) text is empty, is exactly \<open>Name\<close>, or contains
  \<open>Company Name\<close>.\<close>

definition discarded :: "string list \<Rightarrow> bool" where
  "discarded tds \<longleftrightarrow>
     length tds < 4 \<or> cell_text tds 0 = [] \<or> cell_text tds 0 = ''Name''
     \<or> str_includes (cell_text tds 0) ''Company Name''"

section \<open>The remote source\<close>

text \<open>
  A fetch either fails (a connection error or a status outside 2xx: \<open>axios\<close> throws, and
  the failure carries the error's message) or gives a response, of which the scraper reads
  the parsed body and the \<open>set-cookie\<close> header. A request is the initial \<open>GET\<close> or a
  \<open>POST\<close> with the form fields and the \<open>Cookie\<close> header. The remote source is any
  function from the number of requests it has received before in this walk and the request
  to the outcome, so that it may keep a session and answer the same request differently.
\<close>

datatype failure = NetworkFailure string

record response =
  data :: page
  set_cookie :: "string list option"

type_synonym form = "(string \<times> string option) list"

datatype request = Get | Post form "string option"

type_synonym remote = "nat \<Rightarrow> request \<Rightarrow> failure + response"

text \<open>The two deployments of the scraper. They differ in the \<open>Cookie\<close> header of a
  \<open>POST\<close>: the Express server sends \<open>cookies\<close>, the Next.js route
  \<open>cookies || ''\<close>.\<close>

datatype deployment = ExpressServer | NextRoute

definition cookie_header :: "deployment \<Rightarrow> string option \<Rightarrow> string option" where
  "cookie_header d cookies =
     (case d of
        ExpressServer \<Rightarrow> cookies
      | NextRoute \<Rightarrow> (case cookies of None \<Rightarrow> Some [] | Some c \<Rightarrow> Some c))"

fun join :: "string \<Rightarrow> string list \<Rightarrow> string" where
  "join sep [] = []"
| "join sep [x] = x"
| "join sep (x # y # ys) = x @ sep @ join sep (y # ys)"

definition update_cookies :: "string option \<Rightarrow> response \<Rightarrow> string option" where
  \<comment> \<open>\<open>if (response.headers['set-cookie']) cookies = ....map(c => c.split(';')[0]).join('; ')\<close>\<close>
  "update_cookies cookies r =
     (case set_cookie r of
        Some cs \<Rightarrow> Some (join ''; '' (map (takeWhile (\<lambda>c. c \<noteq> CHR '';'')) cs))
      | None \<Rightarrow> cookies)"

section \<open>Pagination walker\<close>

text \<open>The first anchor whose \<open>href\<close> contains \<open>Page$N\<close>.\<close>

definition nextLink :: "page \<Rightarrow> nat \<Rightarrow> string option" where
  "nextLink pg nextPageNum = find (\<lambda>h. str_includes h (''Page$'' @ show_nat nextPageNum)) (anchors pg)"

text \<open>
  \<open>href.match(/__doPostBack\('([^']+)','([^']+)'\)/)\<close>: the leftmost place where the
  pattern matches, and its two groups. A group is a run of characters other than the quote
  that is followed by a quote, so it is the longest such run.
\<close>

definition quote :: char where
  "quote = CHR 0x27"

definition strip_prefix :: "string \<Rightarrow> string \<Rightarrow> string option" where
  "strip_prefix p s = (if prefix p s then Some (drop (length p) s) else None)"

definition match_here :: "string \<Rightarrow> (string \<times> string) option" where
  "match_here s =
     (case strip_prefix (''__doPostBack('' @ [quote]) s of
        None \<Rightarrow> None
      | Some s1 \<Rightarrow>
          let g1 = takeWhile (\<lambda>c. c \<noteq> quote) s1; s2 = dropWhile (\<lambda>c. c \<noteq> quote) s1
          in if g1 = [] then None
             else (case strip_prefix [quote, CHR '','', quote] s2 of
                     None \<Rightarrow> None
                   | Some s3 \<Rightarrow>
                       let g2 = takeWhile (\<lambda>c. c \<noteq> quote) s3;
                           s4 = dropWhile (\<lambda>c. c \<noteq> quote) s3
                       in if g2 = [] then None
                          else if prefix [quote, CHR '')''] s4 then Some (g1, g2) else None))"

fun doPostBack_match :: "string \<Rightarrow> (string \<times> string) option" where
  "doPostBack_match [] = match_here []"
| "doPostBack_match (c # cs) =
     (case match_here (c # cs) of Some m \<Rightarrow> Some m | None \<Rightarrow> doPostBack_match cs)"

text \<open>
  The form of the \<open>POST\<close>: an object with five keys, then one key for every input whose
  name is non-empty, is not \<open>__VIEWSTATE\<close> or \<open>__EVENTVALIDATION\<close>, and for which
  \<open>formData[name]\<close> is falsy (\<open>undefined\<close> or the empty string). The object is kept as
  the list of its keys in the order of their first assignment (JavaScript lists keys that
  are array indices, such as \<open>7\<close>, before the others); reading a key that was never
  assigned gives a member of \<open>Object.prototype\<close> when there is one of that name.
\<close>

definition object_prototype_keys :: "string list" where
  "object_prototype_keys = [''constructor'', ''__defineGetter__'', ''__defineSetter__'',
     ''hasOwnProperty'', ''__lookupGetter__'', ''__lookupSetter__'', ''isPrototypeOf'',
     ''propertyIsEnumerable'', ''toString'', ''valueOf'', ''__proto__'', ''toLocaleString'']"

definition form_truthy :: "form \<Rightarrow> string \<Rightarrow> bool" where
  "form_truthy fd name =
     (case map_of fd name of
        Some v \<Rightarrow> (case v of None \<Rightarrow> False | Some x \<Rightarrow> x \<noteq> [])
      | None \<Rightarrow> name \<in> set object_prototype_keys)"

fun form_set :: "form \<Rightarrow> string \<Rightarrow> string option \<Rightarrow> form" where
  "form_set [] k v = [(k, v)]"
| "form_set ((k', v') # fd) k v = (if k' = k then (k, v) # fd else (k', v') # form_set fd k v)"

definition add_input :: "form \<Rightarrow> string option \<times> string option \<Rightarrow> form" where
  "add_input fd inp =
     (case inp of
        (None, val) \<Rightarrow> fd
      | (Some name, val) \<Rightarrow>
          if name \<noteq> [] \<and> \<not> form_truthy fd name \<and> name \<noteq> ''__VIEWSTATE''
             \<and> name \<noteq> ''__EVENTVALIDATION''
          then form_set fd name val else fd)"

definition formData :: "page \<Rightarrow> string \<Rightarrow> string \<Rightarrow> form" where
  "formData pg eventTarget eventArgument =
     foldl add_input
       [(''__EVENTTARGET'', Some eventTarget),
        (''__EVENTARGUMENT'', Some eventArgument),
        (''__VIEWSTATE'', viewState pg),
        (''__VIEWSTATEGENERATOR'', viewStateGenerator pg),
        (''__EVENTVALIDATION'', eventValidation pg)]
       (inputs pg)"

text \<open>
  The variables of \<open>scrapeAllPages\<close> at the head of its \<open>while\<close> loop, and two
  observers: the number of calls of \<open>Math.random()\<close> and the requests sent so far, in
  order.
\<close>

record walk_state =
  operators :: "operator list"
  cookies :: "string option"
  pageCount :: nat
  current :: response
  calls :: nat
  sent :: "request list"

text \<open>One run of the loop body: either the loop ends (with the value returned, or with the
  failure thrown by the \<open>POST\<close>) or it goes round again. The second component of
  \<open>Stop\<close> is the list of the requests sent.\<close>

datatype step = Stop "failure + operator list" "request list" | Again walk_state

definition loop_body :: "deployment \<Rightarrow> remote \<Rightarrow> (nat \<Rightarrow> rat) \<Rightarrow> walk_state \<Rightarrow> step" where
  "loop_body d net rnd s =
     (let pg = data (current s);
          (pageOperators, k') = extractOperatorsFromTable rnd (calls s) pg;
          ops = operators s @ pageOperators;
          nextPageNum = pageCount s + 1
      in case nextLink pg nextPageNum of
           None \<Rightarrow> Stop (Inr ops) (sent s)
         | Some href \<Rightarrow>
             (case doPostBack_match href of
                None \<Rightarrow> Stop (Inr ops) (sent s)
              | Some (eventTarget, eventArgument) \<Rightarrow>
                  let req = Post (formData pg eventTarget eventArgument)
                                 (cookie_header d (cookies s))
                  in (case net (length (sent s)) req of
                        Inl e \<Rightarrow> Stop (Inl e) (sent s @ [req])
                      | Inr r \<Rightarrow>
                          if pageCount s + 1 > 15 then Stop (Inr ops) (sent s @ [req])
                          else Again \<lparr>operators = ops,
                                      cookies = update_cookies (cookies s) r,
                                      pageCount = pageCount s + 1,
                                      current = r,
                                      calls = k',
                                      sent = sent s @ [req]\<rparr>)))"

lemma loop_body_Again:
  "loop_body d net rnd s = Again s' \<Longrightarrow> pageCount s' = pageCount s + 1 \<and> pageCount s' \<le> 15"
  by (auto simp: loop_body_def Let_def split: prod.splits option.splits sum.splits if_splits)

function scrape_loop ::
  "deployment \<Rightarrow> remote \<Rightarrow> (nat \<Rightarrow> rat) \<Rightarrow> walk_state \<Rightarrow> (failure + operator list) \<times> request list"
  where
  "scrape_loop d net rnd s =
     (case loop_body d net rnd s of
        Stop res reqs \<Rightarrow> (res, reqs)
      | Again s' \<Rightarrow> scrape_loop d net rnd s')"
  by pat_completeness auto
termination
  by (relation "measure (\<lambda>(d, net, rnd, s). 16 - pageCount s)")
     (auto dest: loop_body_Again)

declare scrape_loop.simps [simp del]

definition scrapeAllPages ::
  "deployment \<Rightarrow> remote \<Rightarrow> (nat \<Rightarrow> rat) \<Rightarrow> (failure + operator list) \<times> request list" where
  "scrapeAllPages d net rnd =
     (case net 0 Get of
        Inl e \<Rightarrow> (Inl e, [Get])
      | Inr r \<Rightarrow>
          scrape_loop d net rnd
            \<lparr>operators = [], cookies = update_cookies None r, pageCount = 1, current = r,
             calls = 0, sent = [Get]\<rparr>)"

section \<open>Cache and endpoint\<close>

record cache =
  cachedOperators :: "operator list option"
  lastCacheTime :: int

definition CACHE_DURATION :: int where
  "CACHE_DURATION = 1000 * 60 * 60"

text \<open>\<open>Success count data cached\<close> is the body \<open>{ success: true, count, data, cached }\<close>;
  \<open>Failure message error\<close> is \<open>{ success: false, message, error }\<close>, sent with status
  500.\<close>

datatype api_response = Success nat "operator list" bool | Failure string string

text \<open>
  The handler of \<open>/api/operators\<close> (\<open>GET\<close> in the Next.js route), run without
  interruption. \<open>now1\<close> and \<open>now2\<close> are what \<open>Date.now()\<close> returns at the cache test
  and after the walk. The result is the response, the cache afterwards and the requests sent
  to the remote source. \<open>cachedOperators\<close> is truthy when it is an array,
  empty or not.
\<close>

definition refresh ::
  "deployment \<Rightarrow> remote \<Rightarrow> (nat \<Rightarrow> rat) \<Rightarrow> int \<Rightarrow> cache
     \<Rightarrow> api_response \<times> cache \<times> request list" where
  \<comment> \<open>the handler from \<open>await scrapeAllPages()\<close> on\<close>
  "refresh d net rnd now2 c =
     (case scrapeAllPages d net rnd of
        (Inr allOperators, reqs) \<Rightarrow>
          (Success (length allOperators) allOperators False,
           \<lparr>cachedOperators = Some allOperators, lastCacheTime = now2\<rparr>, reqs)
      | (Inl (NetworkFailure msg), reqs) \<Rightarrow>
          (Failure ''Failed to fetch live data'' msg, c, reqs))"

definition GET ::
  "deployment \<Rightarrow> remote \<Rightarrow> (nat \<Rightarrow> rat) \<Rightarrow> int \<Rightarrow> int \<Rightarrow> cache
     \<Rightarrow> api_response \<times> cache \<times> request list" where
  "GET d net rnd now1 now2 c =
     (case cachedOperators c of
        Some ops \<Rightarrow>
          if now1 - lastCacheTime c < CACHE_DURATION
          then (Success (length ops) ops True, c, [])
          else refresh d net rnd now2 c
      | None \<Rightarrow> refresh d net rnd now2 c)"

section \<open>Interleaved requests\<close>

text \<open>
  Node runs a handler without interruption up to an \<open>await\<close>. The handler of
  \<open>/api/operators\<close> therefore runs in two pieces: from its entry to the first request of
  \<open>scrapeAllPages\<close> (the cache test and, on a miss, the start of a walk), and, once that
  walk has ended, from the assignment of the cache to the response. Pieces of different
  requests interleave. Neither piece reads or writes anything shared but the cache, so the
  walk in between is an event that delivers its result.

  \<open>Arrive i now\<close> runs the first piece for request \<open>i\<close> at time \<open>now\<close>;
  \<open>Finish i res now\<close> runs the second piece for request \<open>i\<close>, whose walk ended with
  \<open>res\<close>. The server records the walks it started and the responses it sent.
\<close>

record server =
  store :: cache
  in_flight :: "nat list"
  walks_started :: nat
  replies :: "(nat \<times> api_response) list"

datatype event = Arrive nat int | Finish nat "failure + operator list" int

definition start_walk :: "nat \<Rightarrow> server \<Rightarrow> server" where
  "start_walk i sv = sv\<lparr>in_flight := in_flight sv @ [i], walks_started := walks_started sv + 1\<rparr>"

fun handle :: "server \<Rightarrow> event \<Rightarrow> server" where
  "handle sv (Arrive i now) =
     (case cachedOperators (store sv) of
        Some ops \<Rightarrow>
          if now - lastCacheTime (store sv) < CACHE_DURATION
          then sv\<lparr>replies := replies sv @ [(i, Success (length ops) ops True)]\<rparr>
          else start_walk i sv
      | None \<Rightarrow> start_walk i sv)"
| "handle sv (Finish i res now) =
     (if i \<notin> set (in_flight sv) then sv
      else case res of
        Inr allOperators \<Rightarrow>
          sv\<lparr>store := \<lparr>cachedOperators = Some allOperators, lastCacheTime = now\<rparr>,
             in_flight := removeAll i (in_flight sv),
             replies := replies sv @ [(i, Success (length allOperators) allOperators False)]\<rparr>
      | Inl (NetworkFailure msg) \<Rightarrow>
          sv\<lparr>in_flight := removeAll i (in_flight sv),
             replies := replies sv @ [(i, Failure ''Failed to fetch live data'' msg)]\<rparr>)"

definition run :: "server \<Rightarrow> event list \<Rightarrow> server" where
  "run sv evs = foldl handle sv evs"

definition idle :: "cache \<Rightarrow> server" where
  "idle c = \<lparr>store = c, in_flight = [], walks_started = 0, replies = []\<rparr>"

section \<open>The prototype's client-side helpers\<close>

text \<open>
  \<open>prototype/api.js\<close> holds a browser-side class with helpers of the same names. Its
  \<open>parseOperatorData\<close>, the only caller of these helpers, is never called: the class
  displays what the server returns. The helpers differ from the server's, and are recorded
  here to keep the two apart.
\<close>

definition proto_districts :: "string list" where
  "proto_districts = [''Cayo'', ''Belize'', ''Orange Walk'', ''Corozal'', ''Stann Creek'', ''Toledo'']"

definition proto_extractDistrict :: "string \<Rightarrow> string" where
  "proto_extractDistrict address =
     (let addressLower = toLowerCase address in
      case find (\<lambda>d. str_includes addressLower (toLowerCase d)) proto_districts of
        Some d \<Rightarrow> d
      | None \<Rightarrow>
          if str_includes addressLower ''san ignacio'' \<or> str_includes addressLower ''santa elena''
             \<or> str_includes addressLower ''benque'' \<or> str_includes addressLower ''bullet tree''
          then ''Cayo''
          else if str_includes addressLower ''san pedro'' \<or> str_includes addressLower ''ambergris''
          then ''Belize''
          else if str_includes addressLower ''placencia'' \<or> str_includes addressLower ''dangriga''
             \<or> str_includes addressLower ''hopkins''
          then ''Stann Creek''
          else ''Unknown'')"

definition proto_categorizeOperator :: "string \<Rightarrow> string" where
  "proto_categorizeOperator name =
     (let nameLower = toLowerCase name in
        if str_includes nameLower ''div'' \<or> str_includes nameLower ''snorkel''
           \<or> str_includes nameLower ''reef'' \<or> str_includes nameLower ''underwater'' then ''diving''
        else if str_includes nameLower ''mayan'' \<or> str_includes nameLower ''maya''
           \<or> str_includes nameLower ''ruin'' \<or> str_includes nameLower ''cultural'' then ''mayan''
        else if str_includes nameLower ''resort'' \<or> str_includes nameLower ''hotel''
           \<or> str_includes nameLower ''lodge'' \<or> str_includes nameLower ''spa'' then ''resort''
        else if str_includes nameLower ''adventure'' \<or> str_includes nameLower ''cave''
           \<or> str_includes nameLower ''zip'' \<or> str_includes nameLower ''jungle''
           \<or> str_includes nameLower ''expedition'' then ''adventure''
        else if str_includes nameLower ''fish'' \<or> str_includes nameLower ''angl'' then ''fishing''
        else if str_includes nameLower ''bird'' \<or> str_includes nameLower ''wildlife''
           \<or> str_includes nameLower ''nature'' then ''nature''
        else ''general'')"

definition proto_generateRating :: "rat \<Rightarrow> string" where
  "proto_generateRating r = toFixed1 (fl (4 + fl (r * 1)))"

section \<open>Notions used in the statements\<close>

text \<open>The keywords that \<open>extractDistrict\<close> recognises.\<close>

definition district_keywords :: "string list" where
  "district_keywords = [''cayo'', ''san ignacio'', ''santa elena'', ''benque'', ''bullet tree'',
     ''stann'', ''placencia'', ''dangriga'', ''hopkins'', ''corozal'', ''orange walk'', ''toledo'',
     ''punta gorda'', ''san pedro'', ''ambergris'', ''caye caulker'', ''belize city'',
     ''ladyville'']"

text \<open>Page number \<open>n\<close> carries a valid control for the next page: an anchor that the walker
  finds when \<open>pageCount = n\<close>, with a postback instruction that it can parse.\<close>

definition has_next :: "page \<Rightarrow> nat \<Rightarrow> bool" where
  "has_next pg n =
     (case nextLink pg (n + 1) of None \<Rightarrow> False | Some href \<Rightarrow> doPostBack_match href \<noteq> None)"

text \<open>A remote source that never fails and whose every page carries such a control: the
  request number \<open>n\<close> (from 0) is answered with page \<open>n + 1\<close>.\<close>

definition always_next :: "remote \<Rightarrow> bool" where
  "always_next net \<longleftrightarrow>
     (\<forall>n req. case net n req of Inl e \<Rightarrow> False | Inr r \<Rightarrow> has_next (data r) (n + 1))"




definition is_post :: "request \<Rightarrow> bool" where
  "is_post req = (case req of Get \<Rightarrow> False | Post fd ck \<Rightarrow> True)"

text \<open>The cache test of the handler.\<close>

definition cache_valid :: "cache \<Rightarrow> int \<Rightarrow> bool" where
  "cache_valid c now \<longleftrightarrow> cachedOperators c \<noteq> None \<and> now - lastCacheTime c < CACHE_DURATION"

text \<open>An event that does not store a collection: an arrival, or the end of a walk that
  failed.\<close>

definition keeps_cache :: "event \<Rightarrow> bool" where
  "keeps_cache ev =
     (case ev of
        Arrive i now \<Rightarrow> True
      | Finish i res now \<Rightarrow> (case res of Inl e \<Rightarrow> True | Inr ops \<Rightarrow> False))"

text \<open>Requests that arrive one after the other, each with its number and its time.\<close>

definition arrivals :: "(nat \<times> int) list \<Rightarrow> event list" where
  "arrivals xs = map (\<lambda>(i, now). Arrive i now) xs"

section \<open>Sample inputs\<close>

definition rnd_zero :: "nat \<Rightarrow> rat" where
  "rnd_zero n = 0"


definition header_row :: "string list" where
  "header_row = [''Name'', ''Phone'', ''Address'', ''Email'', ''Website'']"

definition sample_row :: "string list" where
  "sample_row = [''  Blue Dive Resort '', ''223-1000'', ''Front St, San Pedro'', ''a@b.bz'']"


definition next_href :: "nat \<Rightarrow> string" where
  "next_href n =
     ''javascript:__doPostBack('' @ [quote] @ ''ctl00$Main$GridView1'' @ [quote, CHR '','', quote]
       @ ''Page$'' @ show_nat n @ [quote, CHR '')'']"

definition numbered_page :: "nat \<Rightarrow> page" where
  "numbered_page n =
     \<lparr>rows = [header_row, sample_row],
      anchors = [''#top'', next_href (n + 1)],
      viewState = Some ''dDwtMTA4'',
      eventValidation = Some ''wEWBAK'',
      viewStateGenerator = None,
      inputs = [(Some ''__VIEWSTATE'', Some ''dDwtMTA4''), (Some ''ctl00$Main$txtSearch'', None)]\<rparr>"

definition last_page :: page where
  "last_page = (numbered_page 1)\<lparr>anchors := [''#top'']\<rparr>"

definition endless :: remote where
  "endless n req = Inr \<lparr>data = numbered_page (n + 1), set_cookie = None\<rparr>"



definition empty_cache :: cache where
  "empty_cache = \<lparr>cachedOperators = None, lastCacheTime = 0\<rparr>"

definition old_operator :: operator where
  "old_operator =
     \<lparr>op_id = ''seahorse17'', op_name = ''Seahorse Tours'', phone = ''226-0000'',
      address_full = ''Caye Caulker'', address_district = ''Belize'', email = ''s@t.bz'',
      website = [], district = ''Belize'', location = ''Caye Caulker'', category = ''Diving'',
      priceRange = ''$'', rating = ''4.5''\<rparr>"

definition stale_cache :: cache where
  "stale_cache = \<lparr>cachedOperators = Some [old_operator], lastCacheTime = 0\<rparr>"



text \<open>A row of plain cells, and the pager row of a grid: one cell that spans the table and
  holds a table of its own with the page numbers.\<close>

definition plain_row :: "string list \<Rightarrow> node" where
  "plain_row texts = Elem ''tr'' (map (\<lambda>t. Elem ''td'' [Text t]) texts)"

definition pager_row :: node where
  "pager_row =
     Elem ''tr''
       [Elem ''td''
          [Elem ''table''
             [Elem ''tbody''
                [Elem ''tr''
                   [Elem ''td'' [Elem ''span'' [Text ''1'']],
                    Elem ''td'' [Elem ''a'' [Text ''2'']],
                    Elem ''td'' [Elem ''a'' [Text ''3'']]]]]]]"

definition grid_document :: "node list" where
  "grid_document =
     [Elem ''table''
        [Elem ''tbody'' [plain_row header_row, plain_row sample_row, pager_row]]]"

definition grid_page :: page where
  "grid_page = last_page\<lparr>rows := rows_of grid_document\<rparr>"

section \<open>Properties of the field normalizer\<close>

lemma str_includes_sublist: "str_includes s sub \<longleftrightarrow> sublist sub s"
  by (induction s) (auto simp: sublist_Cons_right)

text \<open>Rewrite rules that evaluate the string functions on literals.\<close>

lemmas str_eval =
  toLowerCase_def lower_char_def code_unit_def char_of_def bit_0 trim_def is_space_def
  digit_char_def

text \<open>
  C7. A name whose lower-cased form contains \<open>dive\<close> is categorised as \<open>Diving\<close>,
  whatever else it contains (\<open>resort\<close> included): the diving keywords are tested first.
\<close>

theorem categorizeOperator_dive:
  "str_includes (toLowerCase name) ''dive'' \<Longrightarrow> categorizeOperator name = ''Diving''"
  by (auto simp: categorizeOperator_def toLowerCase_def)

theorem categorizeOperator_dive_witness:
  "str_includes (toLowerCase ''Blue Dive Resort'') ''dive''
   \<and> str_includes (toLowerCase ''Blue Dive Resort'') ''resort''
   \<and> categorizeOperator ''Blue Dive Resort'' = ''Diving''"
proof -
  have h: "str_includes (toLowerCase ''Blue Dive Resort'') ''dive''"
    by (simp add: str_eval)
  have r: "str_includes (toLowerCase ''Blue Dive Resort'') ''resort''"
    by (simp add: str_eval)
  show ?thesis
    using h r categorizeOperator_dive [OF h] by simp
qed

text \<open>
  C8. An address whose lower-cased form contains none of the recognised keywords is placed
  in \<open>Belize\<close>, the fallback; and no address at all is placed in \<open>Unknown\<close>.
\<close>

theorem extractDistrict_fallback:
  "((\<forall>kw \<in> set district_keywords. \<not> str_includes (toLowerCase address) kw)
      \<longrightarrow> extractDistrict address = ''Belize'')
   \<and> extractDistrict address \<noteq> ''Unknown''"
  by (auto simp: extractDistrict_def district_keywords_def Let_def)

theorem extractDistrict_fallback_witness:
  "list_all (\<lambda>kw. \<not> str_includes (toLowerCase ''12 Main Street'') kw) district_keywords
   \<and> extractDistrict ''12 Main Street'' = ''Belize''
   \<and> extractDistrict ''12 Main Street'' \<noteq> ''Unknown''"
proof -
  have h: "\<forall>kw \<in> set district_keywords. \<not> str_includes (toLowerCase ''12 Main Street'') kw"
    by (simp add: district_keywords_def str_eval)
  show ?thesis
    using h extractDistrict_fallback [of "''12 Main Street''"] by (simp add: list_all_iff)
qed

text \<open>The prototype's helpers give other answers on the same inputs.\<close>

lemma proto_extractDistrict_unknown: "proto_extractDistrict ''12 Main Street'' = ''Unknown''"
  by (simp add: proto_extractDistrict_def proto_districts_def str_eval)

lemma proto_categorizeOperator_lower_case: "proto_categorizeOperator ''Blue Dive Resort'' = ''diving''"
  by (simp add: proto_categorizeOperator_def str_eval)

section \<open>Properties of the page extractor\<close>

lemma extractRow_discarded: "discarded tds \<Longrightarrow> extractRow rnd k tds = (None, k)"
  by (auto simp: extractRow_def discarded_def Let_def)

lemma extractRow_kept:
  "\<not> discarded tds \<Longrightarrow>
   extractRow rnd k tds =
     (Some \<lparr>op_id = generateId (cell_text tds 0) (rnd k),
            op_name = cell_text tds 0,
            phone = cell_text tds 1,
            address_full = cell_text tds 2,
            address_district = extractDistrict (cell_text tds 2),
            email = cell_text tds 3,
            website = cell_text tds 4,
            district = extractDistrict (cell_text tds 2),
            location = extractLocation (cell_text tds 2),
            category = categorizeOperator (cell_text tds 0),
            priceRange = estimatePriceRange (cell_text tds 0),
            rating = generateRating (rnd (k + 1))\<rparr>, k + 2)"
  by (auto simp: extractRow_def discarded_def Let_def)


lemma extractRows_names:
  "map op_name (fst (extractRows rnd k rws)) =
   map (\<lambda>tds. cell_text tds 0) (filter (\<lambda>tds. \<not> discarded tds) rws)"
proof (induction rws arbitrary: k)
  case Nil
  show ?case by simp
next
  case (Cons tds rest)
  show ?case
  proof (cases "discarded tds")
    case True
    then show ?thesis using Cons.IH [of k] by (simp add: extractRow_discarded)
  next
    case False
    then show ?thesis using Cons.IH [of "k + 2"]
      by (auto simp add: extractRow_kept split: prod.splits)
  qed
qed

lemma extractRows_district:
  "r \<in> set (fst (extractRows rnd k rws)) \<Longrightarrow>
   address_district r = district r \<and> district r = extractDistrict (address_full r)"
proof (induction rws arbitrary: k)
  case Nil
  then show ?case by simp
next
  case (Cons tds rest)
  show ?case
  proof (cases "discarded tds")
    case True
    then show ?thesis using Cons by (simp add: extractRow_discarded)
  next
    case False
    then show ?thesis using Cons.IH [of "k + 2"] Cons.prems
      by (auto simp add: extractRow_kept split: prod.splits)
  qed
qed

lemma discarded_header_row: "discarded header_row"
  by (simp add: discarded_def header_row_def cell_text_def str_eval)

lemma kept_sample_row: "\<not> discarded sample_row"
  by (simp add: discarded_def sample_row_def cell_text_def str_eval)


text \<open>
  What the extractor does with a row, in terms of the \<open>td\<close> elements below it. The row is
  dropped, and nothing else happens, when fewer than four such elements lie below it or when
  the trimmed text of the first is empty, is \<open>Name\<close>, or contains \<open>Company Name\<close>. Every
  other row gives exactly one record, named after the first; with four elements only, the
  record's website is empty. Over a page, the records are those of the rows kept, in order.
  The extractor has no failing branch: it is a total function without an error value.
\<close>

lemma extractor_keeps_qualifying_rows:
  "(discarded tds \<longrightarrow> extractRow rnd k tds = (None, k))
   \<and> (\<not> discarded tds \<longrightarrow>
        (\<exists>r. extractRow rnd k tds = (Some r, k + 2) \<and> op_name r = cell_text tds 0
           \<and> (length tds = 4 \<longrightarrow> website r = [])))
   \<and> map op_name (fst (extractOperatorsFromTable rnd k pg)) =
       map (\<lambda>tds. cell_text tds 0) (filter (\<lambda>tds. \<not> discarded tds) (rows pg))"
  by (simp add: extractRow_discarded extractRow_kept extractOperatorsFromTable_def
      extractRows_names cell_text_def)

text \<open>In a row of plain cells the \<open>td\<close> elements below the row are its cells, so that
  there the count of the extractor is the number of cells.\<close>

lemma find_all_plain_cells:
  "find_all ''td'' (map (\<lambda>t. Elem ''td'' [Text t]) texts) = map (\<lambda>t. Elem ''td'' [Text t]) texts"
  by (induction texts) simp_all

lemma td_texts_plain_row:
  "td_texts (plain_row texts) = texts \<and> map node_text (own_cells (plain_row texts)) = texts"
proof -
  have "filter is_td (map (\<lambda>t. Elem ''td'' [Text t]) texts) = map (\<lambda>t. Elem ''td'' [Text t]) texts"
    by (induction texts) (simp_all add: is_td_def)
  moreover have "map node_text (map (\<lambda>t. Elem ''td'' [Text t]) texts) = texts"
    by (induction texts) simp_all
  ultimately show ?thesis
    by (simp add: td_texts_def own_cells_def plain_row_def find_all_plain_cells)
qed

text \<open>
  C6. The extractor fails the claim on a row that holds a nested table: it counts the
  \<open>td\<close> elements below the row at any depth, where the claim (and the comment
  \<open>Skip non-data rows\<close> beside the test) counts cells. The pager row of a grid has one
  cell; four \<open>td\<close> elements lie below it, the cell and the three page numbers. So the row
  is kept and gives a record named \<open>123\<close>, with the page numbers as its phone, address and
  email; a page of a header row, one data row and the pager row gives two records.
\<close>

theorem pager_row_gives_a_record:
  "length (own_cells pager_row) = 1
   \<and> td_texts pager_row = [''123'', ''1'', ''2'', ''3'']
   \<and> map_option op_name (fst (extractRow rnd_zero 0 (td_texts pager_row))) = Some ''123''
   \<and> map_option phone (fst (extractRow rnd_zero 0 (td_texts pager_row))) = Some ''1''
   \<and> map_option address_full (fst (extractRow rnd_zero 0 (td_texts pager_row))) = Some ''2''
   \<and> map_option email (fst (extractRow rnd_zero 0 (td_texts pager_row))) = Some ''3''
   \<and> map op_name (fst (extractOperatorsFromTable rnd_zero 0 grid_page))
       = [''Blue Dive Resort'', ''123'']"
proof -
  have cells: "length (own_cells pager_row) = 1"
    by (simp add: own_cells_def pager_row_def is_td_def)
  have tds: "td_texts pager_row = [''123'', ''1'', ''2'', ''3'']"
    by (simp add: td_texts_def pager_row_def)
  have kept: "\<not> discarded [''123'', ''1'', ''2'', ''3'']"
    by (simp add: discarded_def cell_text_def str_eval)
  have inner: "discarded [''1'', ''2'', ''3'']"
    by (simp add: discarded_def)
  have doc: "rows_of grid_document
      = [header_row, sample_row, [''123'', ''1'', ''2'', ''3''], [''1'', ''2'', ''3'']]"
    by (simp add: rows_of_def grid_document_def plain_row_def pager_row_def td_texts_def
        header_row_def sample_row_def)
  have names: "map op_name (fst (extractOperatorsFromTable rnd_zero 0 grid_page))
      = [''Blue Dive Resort'', ''123'']"
  proof -
    have r: "rows grid_page
        = [header_row, sample_row, [''123'', ''1'', ''2'', ''3''], [''1'', ''2'', ''3'']]"
      by (simp add: grid_page_def doc)
    have n: "cell_text sample_row 0 = ''Blue Dive Resort''"
      "cell_text [''123'', ''1'', ''2'', ''3''] 0 = ''123''"
      by (simp_all add: sample_row_def cell_text_def str_eval)
    show ?thesis
      unfolding extractOperatorsFromTable_def extractRows_names r
      using discarded_header_row kept_sample_row kept inner n by simp
  qed
  show ?thesis
    using cells tds names extractRow_kept [OF kept, of rnd_zero 0]
    by (simp add: cell_text_def str_eval)
qed

text \<open>
  C10. In every record that the extractor produces, the nested \<open>address.district\<close> equals
  the top-level \<open>district\<close>; both are \<open>extractDistrict\<close> of the record's full address.
\<close>

theorem address_district_is_district:
  "\<forall>r \<in> set (fst (extractOperatorsFromTable rnd k pg)).
     address_district r = district r \<and> district r = extractDistrict (address_full r)"
  by (simp add: extractOperatorsFromTable_def extractRows_district)

theorem address_district_is_district_witness:
  "map address_full (fst (extractOperatorsFromTable rnd_zero 0 last_page)) = [''Front St, San Pedro'']
   \<and> map address_district (fst (extractOperatorsFromTable rnd_zero 0 last_page)) = [''Belize'']
   \<and> map district (fst (extractOperatorsFromTable rnd_zero 0 last_page)) = [''Belize'']"
proof -
  have rws: "rows last_page = [header_row, sample_row]"
    by (simp add: last_page_def numbered_page_def)
  have addr: "cell_text sample_row 2 = ''Front St, San Pedro''"
    by (simp add: sample_row_def cell_text_def str_eval)
  have d: "extractDistrict ''Front St, San Pedro'' = ''Belize''"
    by (simp add: extractDistrict_def str_eval)
  obtain r where ops: "fst (extractOperatorsFromTable rnd_zero 0 last_page) = [r]"
    and full: "address_full r = ''Front St, San Pedro''"
    by (simp add: extractOperatorsFromTable_def rws extractRow_discarded [OF discarded_header_row]
        extractRow_kept [OF kept_sample_row] addr)
  have "address_district r = district r \<and> district r = extractDistrict (address_full r)"
    using address_district_is_district [of rnd_zero 0 last_page] ops by simp
  then show ?thesis
    using ops full d by simp
qed




section \<open>Properties of the pagination walker\<close>

lemma show_nat_no_quote: "quote \<notin> set (show_nat n)"
proof (induction n rule: show_nat.induct)
  case (1 n)
  have digit: "digit_char d \<noteq> quote" if "d < 10" for d
  proof
    assume "digit_char d = quote"
    then have "of_char (digit_char d) = (of_char quote :: nat)" by simp
    then show False using that by (simp add: digit_char_def quote_def)
  qed
  show ?case
  proof (cases "n < 10")
    case True
    then show ?thesis using digit [of n] by (subst show_nat.simps) auto
  next
    case False
    then show ?thesis using 1 digit [of "n mod 10"] by (subst show_nat.simps) auto
  qed
qed

lemma show_nat_nonempty: "show_nat n \<noteq> []"
  by (subst show_nat.simps) simp

lemma match_here_next_href:
  "match_here (''__doPostBack('' @ [quote] @ ''ctl00$Main$GridView1'' @ [quote, CHR '','', quote]
       @ ''Page$'' @ show_nat n @ [quote, CHR '')''])
   = Some (''ctl00$Main$GridView1'', ''Page$'' @ show_nat n)"
proof -
  have q: "\<forall>c \<in> set (''Page$'' @ show_nat n). c \<noteq> quote"
    using show_nat_no_quote [of n] by (auto simp: quote_def)
  have tw: "takeWhile (\<lambda>c. c \<noteq> quote) ((''Page$'' @ show_nat n) @ [quote, CHR '')''])
      = ''Page$'' @ show_nat n"
    using q by (subst takeWhile_append2) auto
  have dw: "dropWhile (\<lambda>c. c \<noteq> quote) ((''Page$'' @ show_nat n) @ [quote, CHR '')''])
      = [quote, CHR '')'']"
    using q by (subst dropWhile_append2) auto
  have tw1: "takeWhile (\<lambda>c. c \<noteq> quote) (''ctl00$Main$GridView1'' @ quote # rest)
      = ''ctl00$Main$GridView1''" for rest
    by (simp add: quote_def)
  have dw1: "dropWhile (\<lambda>c. c \<noteq> quote) (''ctl00$Main$GridView1'' @ quote # rest)
      = quote # rest" for rest
    by (simp add: quote_def)
  show ?thesis
    using tw dw tw1 dw1
    by (simp add: match_here_def strip_prefix_def Let_def)
qed

lemma doPostBack_match_next_href:
  "doPostBack_match (next_href n) = Some (''ctl00$Main$GridView1'', ''Page$'' @ show_nat n)"
proof -
  have no: "match_here (c # cs) = None" if "c \<noteq> CHR ''_''" for c cs
    using that by (simp add: match_here_def strip_prefix_def)
  show ?thesis
    unfolding next_href_def
    using match_here_next_href [of n] by (simp add: no)
qed

lemma nextLink_numbered_page: "nextLink (numbered_page n) (Suc n) = Some (next_href (Suc n))"
proof -
  have "sublist (''Page$'' @ show_nat (Suc n)) (next_href (Suc n))"
    unfolding next_href_def sublist_def
    by (rule exI [of _ "''javascript:__doPostBack('' @ [quote] @ ''ctl00$Main$GridView1'' @ [quote, CHR '','', quote]"],
        rule exI [of _ "[quote, CHR '')'']"]) simp
  then have inc: "str_includes (next_href (Suc n)) (''Page$'' @ show_nat (Suc n))"
    by (simp add: str_includes_sublist)
  have top: "\<not> str_includes ''#top'' (''Page$'' @ show_nat (Suc n))"
    by simp
  show ?thesis
    using inc top by (simp add: nextLink_def numbered_page_def)
qed

lemma always_next_endless: "always_next endless"
  by (simp add: always_next_def endless_def has_next_def nextLink_numbered_page
      doPostBack_match_next_href)

text \<open>The loop body on a page that carries a valid control.\<close>

lemma loop_body_post:
  assumes "nextLink (data (current s)) (pageCount s + 1) = Some href"
    and "doPostBack_match href = Some (t, a)"
    and "extractOperatorsFromTable rnd (calls s) (data (current s)) = (po, k')"
  shows "loop_body d net rnd s =
     (case net (length (sent s))
             (Post (formData (data (current s)) t a) (cookie_header d (cookies s))) of
        Inl e \<Rightarrow>
          Stop (Inl e)
            (sent s @ [Post (formData (data (current s)) t a) (cookie_header d (cookies s))])
      | Inr r \<Rightarrow>
          if 15 \<le> pageCount s
          then Stop (Inr (operators s @ po))
                 (sent s @ [Post (formData (data (current s)) t a) (cookie_header d (cookies s))])
          else Again \<lparr>operators = operators s @ po,
                      cookies = update_cookies (cookies s) r,
                      pageCount = pageCount s + 1,
                      current = r,
                      calls = k',
                      sent = sent s
                        @ [Post (formData (data (current s)) t a) (cookie_header d (cookies s))]\<rparr>)"
  using assms by (simp add: loop_body_def Let_def split: sum.splits)


lemma has_next_cases:
  assumes "has_next pg n"
  obtains href t a where "nextLink pg (n + 1) = Some href" and "doPostBack_match href = Some (t, a)"
  using assms by (auto simp: has_next_def split: option.splits)

lemma always_next_answer:
  assumes "always_next net"
  obtains r where "net n req = Inr r" and "has_next (data r) (n + 1)"
proof (cases "net n req")
  case (Inl e)
  then show ?thesis using assms by (simp add: always_next_def split: sum.splits)
next
  case (Inr r)
  moreover have "case net n req of Inl e \<Rightarrow> False | Inr r \<Rightarrow> has_next (data r) (n + 1)"
    using assms unfolding always_next_def by blast
  ultimately show ?thesis using that by simp
qed

lemma scrape_loop_Stop:
  "loop_body d net rnd s = Stop res reqs \<Longrightarrow> scrape_loop d net rnd s = (res, reqs)"
  by (subst scrape_loop.simps) simp

lemma scrape_loop_Again:
  "loop_body d net rnd s = Again s' \<Longrightarrow> scrape_loop d net rnd s = scrape_loop d net rnd s'"
  by (subst scrape_loop.simps) simp

lemma scrape_loop_endless:
  "always_next net \<Longrightarrow> has_next (data (current s)) (pageCount s) \<Longrightarrow> length (sent s) = pageCount s
     \<Longrightarrow> pageCount s \<le> 15 \<Longrightarrow> list_all is_post posts \<Longrightarrow> sent s = Get # posts
     \<Longrightarrow> \<exists>ops posts'. scrape_loop d net rnd s = (Inr ops, Get # posts') \<and> length posts' = 15
           \<and> list_all is_post posts'"
proof (induction d net rnd s arbitrary: posts rule: scrape_loop.induct)
  case (1 d net rnd s)
  obtain href t a where l: "nextLink (data (current s)) (pageCount s + 1) = Some href"
    and m: "doPostBack_match href = Some (t, a)"
    using "1.prems"(2) by (rule has_next_cases)
  obtain po k' where x: "extractOperatorsFromTable rnd (calls s) (data (current s)) = (po, k')"
    by (cases "extractOperatorsFromTable rnd (calls s) (data (current s))")
  define req where "req = Post (formData (data (current s)) t a) (cookie_header d (cookies s))"
  have p: "is_post req" by (simp add: req_def is_post_def)
  obtain r where r: "net (length (sent s)) req = Inr r"
    and nx: "has_next (data r) (length (sent s) + 1)"
    using always_next_answer [OF "1.prems"(1), of "length (sent s)" req] by blast
  have body: "loop_body d net rnd s =
      (if 15 \<le> pageCount s then Stop (Inr (operators s @ po)) (sent s @ [req])
       else Again \<lparr>operators = operators s @ po, cookies = update_cookies (cookies s) r,
               pageCount = pageCount s + 1, current = r, calls = k', sent = sent s @ [req]\<rparr>)"
    using loop_body_post [OF l m x, of d net] r by (simp add: req_def)
  show ?case
  proof (cases "15 \<le> pageCount s")
    case True
    then have "loop_body d net rnd s = Stop (Inr (operators s @ po)) (sent s @ [req])"
      using body by simp
    then have "scrape_loop d net rnd s = (Inr (operators s @ po), sent s @ [req])"
      by (rule scrape_loop_Stop)
    then have "scrape_loop d net rnd s = (Inr (operators s @ po), Get # (posts @ [req]))"
      using "1.prems"(6) by simp
    moreover have "length (posts @ [req]) = 15"
      using True "1.prems"(3,4,6) by simp
    moreover have "list_all is_post (posts @ [req])"
      using "1.prems"(5) p by simp
    ultimately show ?thesis by (intro exI conjI)
  next
    case False
    define s' where "s' = \<lparr>operators = operators s @ po,
                      cookies = update_cookies (cookies s) r,
                      pageCount = pageCount s + 1,
                      current = r,
                      calls = k',
                      sent = sent s @ [req]\<rparr>"
    have b: "loop_body d net rnd s = Again s'"
      using body False by (simp add: s'_def)
    have "\<exists>ops posts'. scrape_loop d net rnd s' = (Inr ops, Get # posts') \<and> length posts' = 15
           \<and> list_all is_post posts'"
    proof (rule "1.IH" [OF b, of "posts @ [req]"])
      show "always_next net" by (rule "1.prems"(1))
      show "has_next (data (current s')) (pageCount s')"
        using nx "1.prems"(3) by (simp add: s'_def)
      show "length (sent s') = pageCount s'"
        using "1.prems"(3) by (simp add: s'_def)
      show "pageCount s' \<le> 15"
        using False by (simp add: s'_def)
      show "list_all is_post (posts @ [req])"
        using "1.prems"(5) p by simp
      show "sent s' = Get # posts @ [req]"
        using "1.prems"(6) by (simp add: s'_def)
    qed
    then show ?thesis
      by (simp only: scrape_loop_Again [OF b])
  qed
qed

text \<open>
  C3. Against a source whose every page carries a valid control for the next page, the walk
  ends without error, but after 16 requests, not 15: one \<open>GET\<close> and 15 \<open>POST\<close>s. The
  bound is tested after the request for the next page has been sent, so the walker asks for
  page 16 and drops the answer unread.
\<close>

theorem walk_of_endless_source:
  assumes "always_next net"
  shows "\<exists>ops posts. scrapeAllPages d net rnd = (Inr ops, Get # posts) \<and> length posts = 15
     \<and> list_all is_post posts"
proof -
  obtain r where r: "net 0 Get = Inr r" and nx: "has_next (data r) (0 + 1)"
    using always_next_answer [OF assms, of 0 Get] by blast
  define s where "s = \<lparr>operators = [], cookies = update_cookies None r, pageCount = 1,
     current = r, calls = 0, sent = [Get]\<rparr>"
  have "scrapeAllPages d net rnd = scrape_loop d net rnd s"
    using r by (simp add: scrapeAllPages_def s_def)
  moreover have "\<exists>ops posts'. scrape_loop d net rnd s = (Inr ops, Get # posts')
      \<and> length posts' = 15 \<and> list_all is_post posts'"
  proof (rule scrape_loop_endless [OF assms, of s "[]"])
    show "has_next (data (current s)) (pageCount s)" using nx by (simp add: s_def)
    show "length (sent s) = pageCount s" by (simp add: s_def)
    show "pageCount s \<le> 15" by (simp add: s_def)
    show "list_all is_post []" by simp
    show "sent s = [Get]" by (simp add: s_def)
  qed
  ultimately show ?thesis by simp
qed

theorem walk_of_endless_source_witness:
  "always_next endless
   \<and> (\<exists>ops posts. scrapeAllPages ExpressServer endless rnd_zero = (Inr ops, Get # posts)
         \<and> length posts = 15 \<and> list_all is_post posts)"
  using always_next_endless walk_of_endless_source [OF always_next_endless, of ExpressServer rnd_zero]
  by blast

section \<open>Properties of the cache and the endpoint\<close>













section \<open>Properties of interleaved requests\<close>

text \<open>The two pieces of the handler, run one after the other for one request, are
  \<open>GET\<close>.\<close>

lemma GET_as_events:
  assumes "i \<notin> set (in_flight sv)"
    and "GET d net rnd now1 now2 (store sv) = (resp, c', reqs)"
  shows "if cache_valid (store sv) now1
         then handle sv (Arrive i now1) = sv\<lparr>replies := replies sv @ [(i, resp)]\<rparr> \<and> c' = store sv
         else handle (handle sv (Arrive i now1)) (Finish i (fst (scrapeAllPages d net rnd)) now2)
              = sv\<lparr>store := c', walks_started := walks_started sv + 1,
                   replies := replies sv @ [(i, resp)]\<rparr>"
proof (cases "cache_valid (store sv) now1")
  case True
  then show ?thesis
    using assms(2) by (auto simp: cache_valid_def GET_def)
next
  case False
  then have miss: "GET d net rnd now1 now2 (store sv) = refresh d net rnd now2 (store sv)"
    by (auto simp: cache_valid_def GET_def split: option.splits)
  have arr: "handle sv (Arrive i now1) = start_walk i sv"
    using False by (auto simp: cache_valid_def split: option.splits)
  obtain res rq where w: "scrapeAllPages d net rnd = (res, rq)"
    by (cases "scrapeAllPages d net rnd")
  show ?thesis
  proof (cases res)
    case (Inr ops)
    then show ?thesis
      using False arr w assms miss by (simp add: refresh_def start_walk_def)
  next
    case (Inl e)
    obtain msg where "e = NetworkFailure msg" by (cases e)
    then show ?thesis
      using False arr w assms miss Inl by (simp add: refresh_def start_walk_def)
  qed
qed

lemma handle_Arrive_invalid:
  "\<not> cache_valid (store sv) now \<Longrightarrow> handle sv (Arrive i now) = start_walk i sv"
  by (auto simp: cache_valid_def split: option.splits)

lemma run_arrivals_invalid:
  "\<forall>(i, now) \<in> set xs. \<not> cache_valid (store sv) now \<Longrightarrow>
   run sv (arrivals xs) =
     sv\<lparr>in_flight := in_flight sv @ map fst xs, walks_started := walks_started sv + length xs\<rparr>"
proof (induction xs arbitrary: sv)
  case Nil
  show ?case by (simp add: run_def arrivals_def)
next
  case (Cons x xs)
  obtain i now where x: "x = (i, now)" by (cases x)
  have inv: "\<not> cache_valid (store sv) now" using Cons.prems x by simp
  have st: "store (start_walk i sv) = store sv" by (simp add: start_walk_def)
  have "run sv (arrivals (x # xs)) = run (start_walk i sv) (arrivals xs)"
    using handle_Arrive_invalid [OF inv] x by (simp add: run_def arrivals_def)
  also have "\<dots> = (start_walk i sv)\<lparr>in_flight := in_flight (start_walk i sv) @ map fst xs,
       walks_started := walks_started (start_walk i sv) + length xs\<rparr>"
    using Cons.prems st by (intro Cons.IH) auto
  finally show ?case
    using x by (simp add: start_walk_def)
qed

text \<open>Among interleaved requests the same holds as long as the events in between store
  nothing: arrivals, hits and walks that fail leave the collection of the first call in the
  cache, and a later arrival inside the hour is answered with it and starts no walk.\<close>

lemma handle_keeps_store: "keeps_cache ev \<Longrightarrow> store (handle sv ev) = store sv"
  by (cases ev)
     (auto simp: keeps_cache_def start_walk_def split: option.splits sum.splits failure.splits)

lemma run_keeps_store: "list_all keeps_cache evs \<Longrightarrow> store (run sv evs) = store sv"
proof (induction evs arbitrary: sv)
  case Nil
  show ?case by (simp add: run_def)
next
  case (Cons ev evs)
  have "run sv (ev # evs) = run (handle sv ev) evs"
    by (simp add: run_def)
  then show ?case
    using Cons handle_keeps_store [of ev sv] by simp
qed

lemma hit_after_quiet_events:
  assumes "i \<in> set (in_flight sv)" and "list_all keeps_cache evs"
    and "t2 - t1 < CACHE_DURATION"
  shows "handle (run (handle sv (Finish i (Inr ops) t1)) evs) (Arrive j t2)
     = (run (handle sv (Finish i (Inr ops) t1)) evs)
         \<lparr>replies := replies (run (handle sv (Finish i (Inr ops) t1)) evs)
            @ [(j, Success (length ops) ops True)]\<rparr>"
proof -
  have "store (handle sv (Finish i (Inr ops) t1))
      = \<lparr>cachedOperators = Some ops, lastCacheTime = t1\<rparr>"
    using assms(1) by simp
  then have "store (run (handle sv (Finish i (Inr ops) t1)) evs)
      = \<lparr>cachedOperators = Some ops, lastCacheTime = t1\<rparr>"
    using run_keeps_store [OF assms(2)] by simp
  then show ?thesis
    using assms(3) by simp
qed

text \<open>
  C4, as stated, fails: the handler has no guard around the walk. Two requests that arrive
  at an empty cache, the second before the walk of the first has ended, start two walks.
\<close>

theorem two_arrivals_two_walks_counterexample:
  "\<not> walks_started (run (idle empty_cache) [Arrive 1 0, Arrive 2 1]) \<le> 1"
  by (simp add: run_def idle_def empty_cache_def start_walk_def)

text \<open>
  C4, amended. Every request that arrives while the cache is empty or expired starts a walk
  of its own: \<open>N\<close> requests that arrive before any of these walks has ended start \<open>N\<close>
  walks, all in flight together, and none of them waits for another.
\<close>

theorem every_miss_starts_a_walk:
  assumes "\<forall>(i, now) \<in> set xs. \<not> cache_valid (store sv) now"
  shows "walks_started (run sv (arrivals xs)) = walks_started sv + length xs
     \<and> in_flight (run sv (arrivals xs)) = in_flight sv @ map fst xs
     \<and> replies (run sv (arrivals xs)) = replies sv"
  using run_arrivals_invalid [OF assms] by simp

theorem every_miss_starts_a_walk_witness:
  "list_all (\<lambda>(i, now). \<not> cache_valid (store (idle stale_cache)) now)
      [(1, 3600000), (2, 3600001), (3, 3600002)]
   \<and> walks_started (run (idle stale_cache) (arrivals [(1, 3600000), (2, 3600001), (3, 3600002)])) = 3
   \<and> in_flight (run (idle stale_cache) (arrivals [(1, 3600000), (2, 3600001), (3, 3600002)])) = [1, 2, 3]
   \<and> replies (run (idle stale_cache) (arrivals [(1, 3600000), (2, 3600001), (3, 3600002)])) = []"
proof -
  have h: "\<forall>(i, now) \<in> set [(1, 3600000), (2, 3600001), (3::nat, 3600002::int)].
      \<not> cache_valid (store (idle stale_cache)) now"
    by (simp add: cache_valid_def idle_def stale_cache_def CACHE_DURATION_def)
  show ?thesis
    using every_miss_starts_a_walk [OF h] h by (simp add: list_all_iff idle_def)
qed


section \<open>Properties of the numbers\<close>

lemma round_half_even_error: "\<bar>of_int (round_half_even y) - y\<bar> \<le> 1 / 2"
proof -
  have "of_int \<lfloor>y\<rfloor> \<le> y" and "y < of_int \<lfloor>y\<rfloor> + 1"
    by linarith+
  then show ?thesis
    by (auto simp: round_half_even_def Let_def)
qed

lemma ilog2_le:
  assumes "0 < x"
  shows "2 powi ilog2 x \<le> x"
proof (cases "1 \<le> x")
  case True
  define n where "n = \<lfloor>x\<rfloor>"
  have n: "0 < n" using True by (simp add: n_def)
  then have b: "1 \<le> bitlen n"
    using bitlen_eq_zero_iff [of n] bitlen_nonneg [of n] by linarith
  have "(2::int) ^ nat (bitlen n - 1) \<le> n"
    using bitlen_bounds [OF n] by simp
  then have "(of_int ((2::int) ^ nat (bitlen n - 1)) :: rat) \<le> of_int n"
    by (simp only: of_int_le_iff)
  also have "\<dots> \<le> x" by (simp add: n_def)
  finally have "(2::rat) ^ nat (bitlen n - 1) \<le> x" by simp
  moreover have "(2::rat) powi (bitlen n - 1) = 2 ^ nat (bitlen n - 1)"
    using b by (simp add: power_int_def)
  ultimately show ?thesis
    using True by (simp add: ilog2_def n_def)
next
  case False
  define n where "n = \<lceil>1 / x\<rceil> - 1"
  have "1 < 1 / x" using assms False by simp
  then have n: "0 < n" unfolding n_def by linarith
  have "n + 1 \<le> 2 ^ nat (bitlen n)"
    using bitlen_bounds [OF n] by simp
  then have "(of_int (n + 1) :: rat) \<le> of_int (2 ^ nat (bitlen n))"
    by (simp only: of_int_le_iff)
  moreover have "1 / x \<le> of_int (n + 1)"
    by (simp add: n_def)
  ultimately have "1 / x \<le> (2::rat) ^ nat (bitlen n)" by simp
  then have "1 \<le> x * 2 ^ nat (bitlen n)"
    using assms by (simp add: field_simps)
  then have "1 / 2 ^ nat (bitlen n) \<le> x"
    by (simp add: field_simps)
  moreover have "(2::rat) powi (- bitlen n) = 1 / 2 ^ nat (bitlen n)"
    using bitlen_nonneg [of n] by (simp add: power_int_def field_simps)
  ultimately show ?thesis
    using False by (simp add: ilog2_def n_def)
qed

text \<open>A positive number is rounded with a small error. (The error is at most half a unit
  in the last place; the coarser bound is all that is used below.)\<close>

lemma fl_error:
  assumes "0 < x"
  shows "\<bar>fl x - x\<bar> \<le> (x + 1) / 2048"
proof -
  define e where "e = max (ilog2 x - 52) (- 1074)"
  define u :: rat where "u = 2 powi e"
  define m where "m = round_half_even (x / u)"
  have u: "0 < u" by (simp add: u_def)
  have flx: "fl x = of_int m * u"
    using assms by (simp add: fl_def Let_def e_def u_def m_def)
  have "\<bar>of_int m - x / u\<bar> \<le> 1 / 2"
    unfolding m_def by (rule round_half_even_error)
  then have "\<bar>of_int m - x / u\<bar> * u \<le> 1 / 2 * u"
    using u by (intro mult_right_mono) auto
  moreover have "\<bar>of_int m - x / u\<bar> * u = \<bar>of_int m * u - x\<bar>"
  proof -
    have "\<bar>of_int m - x / u\<bar> * u = \<bar>(of_int m - x / u) * u\<bar>"
      using u by (simp add: abs_mult)
    also have "(of_int m - x / u) * u = of_int m * u - x"
      using u by (simp add: field_simps)
    finally show ?thesis .
  qed
  ultimately have err: "\<bar>fl x - x\<bar> \<le> u / 2"
    by (simp add: flx)
  have "u \<le> (x + 1) / 1024"
  proof (cases "ilog2 x - 52 \<le> - 1074")
    case True
    then have "e = - 1074" by (simp add: e_def)
    then have "u \<le> 2 powi (- 10)"
      unfolding u_def by (simp only:) (rule power_int_increasing, simp_all)
    also have "\<dots> = 1 / 1024" by (simp add: power_int_minus)
    also have "\<dots> \<le> (x + 1) / 1024" using assms by simp
    finally show ?thesis .
  next
    case False
    then have "e = ilog2 x - 52" by (simp add: e_def)
    then have "u = 2 powi ilog2 x / 2 ^ 52"
      by (simp add: u_def power_int_diff)
    also have "\<dots> \<le> x / 2 ^ 52"
      using ilog2_le [OF assms] by (simp add: divide_right_mono)
    also have "\<dots> \<le> x / 1024"
      using assms by simp
    also have "\<dots> \<le> (x + 1) / 1024" by simp
    finally show ?thesis .
  qed
  then show ?thesis using err by simp
qed

lemma fl_bounds:
  assumes "0 \<le> x"
  shows "x - (x / 2048 + 1 / 2048) \<le> fl x" and "fl x \<le> x + (x / 2048 + 1 / 2048)"
proof -
  have "x - (x / 2048 + 1 / 2048) \<le> fl x \<and> fl x \<le> x + (x / 2048 + 1 / 2048)"
  proof (cases "x = 0")
    case True
    then show ?thesis by (simp add: fl_def)
  next
    case False
    then have "0 < x" using assms by simp
    then have "\<bar>fl x - x\<bar> \<le> (x + 1) / 2048" by (rule fl_error)
    then have "\<bar>fl x - x\<bar> \<le> x / 2048 + 1 / 2048" by (simp only: add_divide_distrib)
    then have "fl x - x \<le> x / 2048 + 1 / 2048" and "- (fl x - x) \<le> x / 2048 + 1 / 2048"
      by (rule abs_le_D1, rule abs_le_D2)
    then show ?thesis by (intro conjI) linarith+
  qed
  then show "x - (x / 2048 + 1 / 2048) \<le> fl x" and "fl x \<le> x + (x / 2048 + 1 / 2048)"
    by simp_all
qed

lemma fl_near:
  assumes "0 \<le> a" and "a \<le> 6"
  shows "a - 1 / 100 \<le> fl a" and "fl a \<le> a + 1 / 100"
  using fl_bounds [OF assms(1)] assms by linarith+

text \<open>The number that \<open>generateRating\<close> formats lies between 4.15 and 5.05.\<close>

lemma rating_value_bounds:
  assumes "0 \<le> r" and "r < 1"
  shows "415 / 100 \<le> fl (fl (42 / 10) + fl (r * fl (8 / 10)))"
    and "fl (fl (42 / 10) + fl (r * fl (8 / 10))) < 505 / 100"
proof -
  define c42 where "c42 = fl (42 / 10)"
  define c08 where "c08 = fl (8 / 10)"
  define p where "p = r * c08"
  define y where "y = fl p"
  define z where "z = c42 + y"
  have c42: "419 / 100 \<le> c42" "c42 \<le> 421 / 100"
    using fl_near [of "42 / 10"] by (simp_all add: c42_def)
  have c08: "79 / 100 \<le> c08" "c08 \<le> 81 / 100"
    using fl_near [of "8 / 10"] by (simp_all add: c08_def)
  have "0 \<le> c08" using c08(1) by linarith
  then have p0: "0 \<le> p"
    using assms(1) unfolding p_def by (rule mult_nonneg_nonneg [rotated])
  have "r * c08 \<le> 1 * c08"
    using assms(2) \<open>0 \<le> c08\<close> by (intro mult_right_mono) auto
  then have p1: "p \<le> 81 / 100"
    using c08(2) unfolding p_def by linarith
  have "p \<le> 6" using p1 by linarith
  then have y: "- 1 / 100 \<le> y" "y \<le> 82 / 100"
    using fl_near [OF p0] p0 p1 unfolding y_def by linarith+
  have z: "418 / 100 \<le> z" "z \<le> 503 / 100"
    using c42 y unfolding z_def by linarith+
  then have "0 \<le> z" and "z \<le> 6" by linarith+
  then have "415 / 100 \<le> fl z" and "fl z < 505 / 100"
    using fl_near [of z] z by linarith+
  then show "415 / 100 \<le> fl (fl (42 / 10) + fl (r * fl (8 / 10)))"
    and "fl (fl (42 / 10) + fl (r * fl (8 / 10))) < 505 / 100"
    by (simp_all only: z_def y_def p_def c42_def c08_def)
qed

lemmas parse_eval =
  parseFloat_def parse_unsigned_def is_digit_def digits_val_def Let_def show_nat.simps

lemma parse_rating_string:
  assumes "n \<in> {42, 43, 44, 45, 46, 47, 48, 49, 50}"
  shows "parseFloat (show_nat (n div 10) @ ''.'' @ show_nat (n mod 10)) = Some (of_nat n / 10)"
  using assms by (elim insertE emptyE) (simp_all add: parse_eval str_eval)

text \<open>
  C9. For every value \<open>r\<close> of the random source with \<open>0 \<le> r < 1\<close>, the rating is a
  string that reads back as a number between 4.2 and 5.0, a multiple of one tenth.
\<close>

theorem generateRating_in_range:
  assumes "0 \<le> r" and "r < 1"
  shows "\<exists>n. parseFloat (generateRating r) = Some (of_nat n / 10)
     \<and> 42 / 10 \<le> (of_nat n / 10 :: rat) \<and> (of_nat n / 10 :: rat) \<le> 5"
proof -
  define x where "x = fl (fl (42 / 10) + fl (r * fl (8 / 10)))"
  define n where "n = nat \<lfloor>\<bar>x\<bar> * 10 + 1 / 2\<rfloor>"
  have x: "415 / 100 \<le> x" "x < 505 / 100"
    unfolding x_def using assms by (rule rating_value_bounds)+
  then have ax: "\<bar>x\<bar> = x" by simp
  have "42 \<le> \<lfloor>x * 10 + 1 / 2\<rfloor>"
    using x by (simp add: le_floor_iff)
  moreover have "\<lfloor>x * 10 + 1 / 2\<rfloor> < 51"
    using x by (simp add: floor_less_iff)
  ultimately have n: "42 \<le> n \<and> n \<le> 50"
    unfolding n_def ax by linarith
  then have "n \<in> {42, 43, 44, 45, 46, 47, 48, 49, 50}"
    by auto
  then have "parseFloat (show_nat (n div 10) @ ''.'' @ show_nat (n mod 10)) = Some (of_nat n / 10)"
    by (rule parse_rating_string)
  moreover have "generateRating r = toFixed1 x"
    by (simp only: generateRating_def x_def)
  moreover have "toFixed1 x = show_nat (n div 10) @ ''.'' @ show_nat (n mod 10)"
    using x by (simp add: toFixed1_def Let_def n_def)
  moreover have "42 / 10 \<le> (of_nat n / 10 :: rat) \<and> (of_nat n / 10 :: rat) \<le> 5"
    using n by simp
  ultimately show ?thesis by auto
qed

theorem generateRating_in_range_witness:
  "(0::rat) \<le> 1 / 2 \<and> (1 / 2 :: rat) < 1
   \<and> generateRating (1 / 2) = ''4.6''
   \<and> (\<exists>n. parseFloat (generateRating (1 / 2)) = Some (of_nat n / 10)
         \<and> 42 / 10 \<le> (of_nat n / 10 :: rat) \<and> (of_nat n / 10 :: rat) \<le> 5)"
proof -
  have a: "(0::rat) \<le> 1 / 2" and b: "(1 / 2 :: rat) < 1" by simp_all
  have c: "generateRating (1 / 2) = ''4.6''" by code_simp
  show ?thesis
    using generateRating_in_range [OF a b] a b c by blast
qed

text \<open>The prototype's rating starts at 4.0.\<close>

lemma proto_generateRating_below: "proto_generateRating 0 = ''4.0''"
  by code_simp


end
